theory Spec2Isabelle
  imports Complex_Main "HOL-Library.Char_ord" "HOL-Library.List_Lexorder" "HOL-Library.Multiset"
begin

section \<open>Data model (types/statebot.store.ts)\<close>

text \<open>
  State names and facts are JavaScript strings, modelled as \<open>string\<close>. A \<open>Date\<close> is its
  millisecond count (\<open>getTime()\<close>), an \<open>int\<close>. Millisecond durations and the retry count
  are \<open>int\<close>; confidence values and the threshold are \<open>real\<close> (the non-finite values of
  a JavaScript number are left out). An optional field is an \<open>option\<close>; \<open>null\<close> and
  \<open>undefined\<close> are both \<open>None\<close>.
\<close>

datatype LLMProvider = claude | gemini | chatgpt

record StateBotConfig =
  provider :: LLMProvider
  apiKey :: string
  states :: "(string \<times> string list) list"
  cacheExpiry :: "int option"
  debounceTime :: "int option"
  retryCount :: "int option"
  determinationThreshold :: "real option"

text \<open>An element of \<open>StateBotState.transitions\<close>.\<close>

record Transition =
  tr_from :: "string option"
  tr_to :: string
  tr_timestamp :: int
  tr_facts :: "string list"

record StateBotState =
  currentState :: "string option"
  previousState :: "string option"
  facts :: "string list"
  confidence :: real
  lastUpdated :: int
  transitions :: "Transition list"
  error :: "string option"

record Fact =
  content :: string
  source :: "string option"
  timestamp :: "int option"

text \<open>The union type \<open>Fact | string\<close> taken by the fact mutations.\<close>

datatype FactOrString = Str string | Obj Fact

record LLMStateResponse =
  r_state :: string
  r_confidence :: real
  r_reasoning :: "string option"

text \<open>A value of the store's \<open>cache\<close> map.\<close>

record CacheEntry =
  ce_state :: string
  ce_confidence :: real
  ce_timestamp :: int

section \<open>LLM clients (services/statebot/*-integration.service.ts)\<close>

text \<open>
  One attempt of a client is \<open>fetch\<close>, the \<open>response.ok\<close> test, \<open>response.json()\<close> and
  \<open>parseResponse\<close>. What the remote API and the parser do is outside the program, so an
  attempt is given by what happened: the request was rejected, the response was not 2xx
  (status and status text as printed in the message), the body was not JSON,
  \<open>parseResponse\<close> threw, or a response was parsed.
\<close>

datatype FetchResult =
    NetworkError string
  | NotOk string string
  | BadJson string
  | ParseFailure
  | Parsed LLMStateResponse

fun providerName :: "LLMProvider \<Rightarrow> string" where
  "providerName claude = ''Claude''"
| "providerName gemini = ''Gemini''"
| "providerName chatgpt = ''ChatGPT''"

fun apiName :: "LLMProvider \<Rightarrow> string" where
  "apiName claude = ''Claude''"
| "apiName gemini = ''Gemini''"
| "apiName chatgpt = ''OpenAI''"

text \<open>The body of the \<open>try\<close> block: \<open>Inl\<close> is the message of the error it throws.\<close>

fun attempt :: "LLMProvider \<Rightarrow> FetchResult \<Rightarrow> string + LLMStateResponse" where
  "attempt p (NetworkError m) = Inl m"
| "attempt p (NotOk status statusText) =
     Inl (apiName p @ '' API error: '' @ status @ '' '' @ statusText)"
| "attempt p (BadJson m) = Inl m"
| "attempt p ParseFailure = Inl (''Failed to parse '' @ providerName p @ '' response'')"
| "attempt p (Parsed r) = Inr r"

text \<open>
  What one call of a client's \<open>determineState\<close> did: its result (\<open>Inl\<close> the message of the
  error thrown), the number of attempts made, and the delays it passed to \<open>setTimeout\<close>
  between them, in order.
\<close>

record LLMRun =
  outcome :: "string + LLMStateResponse"
  attempts_made :: nat
  waits :: "int list"

text \<open>
  The \<open>while (attempts < this.retryCount)\<close> loop of the three clients, which differ only
  in their messages. \<open>backend k\<close> is what the attempt numbered \<open>k\<close> (from 0) meets.
\<close>

function retryLoop ::
  "LLMProvider \<Rightarrow> int \<Rightarrow> (nat \<Rightarrow> FetchResult) \<Rightarrow> nat \<Rightarrow> string option \<Rightarrow> int list \<Rightarrow> LLMRun" where
  "retryLoop p rc backend attempts lastError ws =
     (if int attempts < rc then
        (case attempt p (backend attempts) of
           Inr r \<Rightarrow> \<lparr>outcome = Inr r, attempts_made = Suc attempts, waits = ws\<rparr>
         | Inl e \<Rightarrow>
             retryLoop p rc backend (Suc attempts) (Some e)
               (if int (Suc attempts) < rc then ws @ [2 ^ Suc attempts * 500] else ws))
      else
        \<lparr>outcome = Inl (case lastError of
                          Some e \<Rightarrow> e
                        | None \<Rightarrow> ''Failed to determine state with '' @ apiName p @ '' API''),
         attempts_made = attempts, waits = ws\<rparr>)"
  by pat_completeness auto
termination
  by (relation "measure (\<lambda>(p, rc, backend, attempts, lastError, ws). nat (rc - int attempts))") auto

declare retryLoop.simps [simp del]

record LLMService =
  svc_provider :: LLMProvider
  svc_apiKey :: string
  svc_retryCount :: int

definition llm_determineState :: "LLMService \<Rightarrow> (nat \<Rightarrow> FetchResult) \<Rightarrow> LLMRun" where
  "llm_determineState svc backend =
     retryLoop (svc_provider svc) (svc_retryCount svc) backend 0 None []"

section \<open>The store (stores/statebot.store.ts)\<close>

text \<open>
  The fields of a \<open>StateBotStore\<close> instance together with the part of its surroundings
  that the code acts on:
  \<^item> \<open>store\<close> is the value held by the \<open>writable\<close>, and \<open>subscribers\<close> holds, for each
    callback registered with \<open>subscribe\<close>, the list of snapshots it has been called with;
  \<^item> \<open>now\<close> is the clock read by \<open>new Date()\<close>;
  \<^item> \<open>timeouts\<close> are the pending \<open>setTimeout\<close> calls as (id, time due): the only callback
    ever scheduled is the one of \<open>scheduleStateUpdate\<close>;
  \<^item> \<open>backend\<close> is what each successive attempt of the LLM client meets, \<open>fetches\<close> how many
    attempts were made so far;
  \<^item> \<open>llmCalls\<close> counts the calls of \<open>llmService.determineState\<close> and \<open>debounceRuns\<close> the
    runs of the timer callback.
  A determination cycle is run without interleaving: the awaited client call returns
  within the step, the clock moved on by the time the client waited between its attempts.
  \<open>setLLMService\<close> and the two HTTP handlers are not part of the model.
\<close>

record World =
  config :: StateBotConfig
  store :: StateBotState
  llmService :: LLMService
  updateTimer :: "nat option"
  cache :: "string \<rightharpoonup> CacheEntry"
  subscribers :: "StateBotState list list"
  now :: int
  timeouts :: "(nat \<times> int) list"
  nextTimeout :: nat
  backend :: "nat \<Rightarrow> FetchResult"
  fetches :: nat
  llmCalls :: nat
  debounceRuns :: nat

subsection \<open>Construction\<close>

text \<open>\<open>x || d\<close> on an optional number: \<open>undefined\<close> and \<open>0\<close> are falsy.\<close>

definition js_or :: "'a::zero option \<Rightarrow> 'a \<Rightarrow> 'a" where
  "js_or x d = (case x of None \<Rightarrow> d | Some v \<Rightarrow> if v = 0 then d else v)"

definition defaultConfig :: "StateBotConfig \<Rightarrow> StateBotConfig" where
  "defaultConfig c =
     c\<lparr>cacheExpiry := Some (js_or (cacheExpiry c) (5 * 60 * 1000)),
       debounceTime := Some (js_or (debounceTime c) 500),
       retryCount := Some (js_or (retryCount c) 3),
       determinationThreshold := Some (js_or (determinationThreshold c) 0.7)\<rparr>"

text \<open>
  The \<open>default\<close> branch of the \<open>switch\<close> throws for a provider outside \<open>LLMProvider\<close>; no
  value of the type reaches it. An \<open>undefined\<close> retry count would take the default
  \<open>retryCount = 3\<close> of the client's constructor.
\<close>

definition createLLMService :: "StateBotConfig \<Rightarrow> LLMService" where
  "createLLMService c =
     \<lparr>svc_provider = provider c, svc_apiKey = apiKey c,
      svc_retryCount = (case retryCount c of Some n \<Rightarrow> n | None \<Rightarrow> 3)\<rparr>"

definition initialState :: "int \<Rightarrow> StateBotState" where
  "initialState t =
     \<lparr>currentState = None, previousState = None, facts = [], confidence = 0,
      lastUpdated = t, transitions = [], error = None\<rparr>"

text \<open>\<open>new StateBotStore(config)\<close> at clock time \<open>t\<close>, facing the remote API \<open>b\<close>.\<close>

definition constructor :: "StateBotConfig \<Rightarrow> int \<Rightarrow> (nat \<Rightarrow> FetchResult) \<Rightarrow> World" where
  "constructor c t b =
     \<lparr>config = defaultConfig c,
      store = initialState t,
      llmService = createLLMService (defaultConfig c),
      updateTimer = None,
      cache = Map.empty,
      subscribers = [],
      now = t,
      timeouts = [],
      nextTimeout = 1,
      backend = b,
      fetches = 0,
      llmCalls = 0,
      debounceRuns = 0\<rparr>"

subsection \<open>The writable and its subscribers\<close>

text \<open>
  The \<open>writable\<close> of \<open>svelte/store\<close> is a library that the repository imports. Its
  contract, which the spec repeats for \<open>subscribe\<close>: a subscriber is called synchronously
  with the current value when it subscribes and with the new value on every \<open>set\<close>;
  \<open>update f\<close> is \<open>set\<close> of \<open>f\<close> applied to the current value (a new object is always a
  change); \<open>get\<close> returns the current value. A subscriber is kept as the list of values
  it was called with; the handle that unsubscribes is not part of the model.
\<close>

definition storeSet :: "StateBotState \<Rightarrow> World \<Rightarrow> World" where
  "storeSet v w = w\<lparr>store := v, subscribers := map (\<lambda>seen. seen @ [v]) (subscribers w)\<rparr>"

definition storeUpdate :: "(StateBotState \<Rightarrow> StateBotState) \<Rightarrow> World \<Rightarrow> World" where
  "storeUpdate f w = storeSet (f (store w)) w"

definition subscribe :: "World \<Rightarrow> World" where
  "subscribe w = w\<lparr>subscribers := subscribers w @ [[store w]]\<rparr>"

definition getState :: "World \<Rightarrow> StateBotState" where
  "getState w = store w"

subsection \<open>Timers\<close>

text \<open>
  The timer of the runtime keeps a delay in a signed 32-bit integer. Node waits 1 ms for
  a delay outside \<open>1 .. 2^31 - 1\<close>; a browser reduces the delay modulo \<open>2^32\<close> and waits
  0 ms for a negative one. Within the range both wait the delay that was asked for.
  \<open>timerDelay\<close> is the time waited for a delay asked for, by Node's rule.
\<close>

definition TIMEOUT_MAX :: int where
  "TIMEOUT_MAX = 2147483647"

definition timerDelay :: "int \<Rightarrow> int" where
  "timerDelay delay = (if 1 \<le> delay \<and> delay \<le> TIMEOUT_MAX then delay else 1)"

text \<open>
  \<open>setTimeout(callback, delay)\<close> at the current clock time.
  \<open>clearTimeout\<close> of an id that is no longer pending does nothing.
\<close>

definition setTimeout :: "int \<Rightarrow> World \<Rightarrow> nat \<times> World" where
  "setTimeout delay w =
     (nextTimeout w,
      w\<lparr>timeouts := timeouts w @ [(nextTimeout w, now w + timerDelay delay)],
        nextTimeout := Suc (nextTimeout w)\<rparr>)"

definition clearTimeout :: "nat \<Rightarrow> World \<Rightarrow> World" where
  "clearTimeout t w = w\<lparr>timeouts := filter (\<lambda>p. fst p \<noteq> t) (timeouts w)\<rparr>"

definition scheduleStateUpdate :: "World \<Rightarrow> World" where
  "scheduleStateUpdate w =
     (let w1 = (case updateTimer w of Some t \<Rightarrow> clearTimeout t w | None \<Rightarrow> w);
          (t, w2) = setTimeout (case debounceTime (config w1) of Some d \<Rightarrow> d | None \<Rightarrow> 0) w1
      in w2\<lparr>updateTimer := Some t\<rparr>)"

subsection \<open>Fact mutations\<close>

fun factContent :: "FactOrString \<Rightarrow> string" where
  "factContent (Str s) = s"
| "factContent (Obj f) = content f"

definition addFact :: "FactOrString \<Rightarrow> World \<Rightarrow> World" where
  "addFact fct w =
     scheduleStateUpdate
       (storeUpdate (\<lambda>state. state\<lparr>facts := facts state @ [factContent fct]\<rparr>) w)"

definition addFacts :: "FactOrString list \<Rightarrow> World \<Rightarrow> World" where
  "addFacts fs w =
     scheduleStateUpdate
       (storeUpdate (\<lambda>state. state\<lparr>facts := facts state @ map factContent fs\<rparr>) w)"

definition removeFact :: "FactOrString \<Rightarrow> World \<Rightarrow> World" where
  "removeFact fct w =
     scheduleStateUpdate
       (storeUpdate
          (\<lambda>state. state\<lparr>facts := filter (\<lambda>f. f \<noteq> factContent fct) (facts state)\<rparr>) w)"

definition clearFacts :: "World \<Rightarrow> World" where
  "clearFacts w =
     storeUpdate (\<lambda>state. state\<lparr>currentState := None, confidence := 0\<rparr>)
       (storeUpdate (\<lambda>state. state\<lparr>facts := []\<rparr>) w)"

definition reset :: "World \<Rightarrow> World" where
  "reset w = (storeSet (initialState (now w)) w)\<lparr>cache := Map.empty\<rparr>"

subsection \<open>The determination cycle\<close>

definition updateStateStore :: "string \<Rightarrow> real \<Rightarrow> World \<Rightarrow> World" where
  "updateStateStore newState conf w =
     storeUpdate
       (\<lambda>state.
          let stateChanged = (currentState state \<noteq> Some newState);
              transitions' =
                (if stateChanged
                 then transitions state @
                        [\<lparr>tr_from = currentState state, tr_to = newState,
                          tr_timestamp = now w, tr_facts = facts state\<rparr>]
                 else transitions state)
          in state\<lparr>previousState := (if stateChanged then currentState state
                                       else previousState state),
                   currentState := Some newState,
                   confidence := conf,
                   lastUpdated := now w,
                   transitions := transitions',
                   error := None\<rparr>)
       w"

text \<open>\<open>Array.prototype.join\<close> on strings.\<close>

fun join :: "string \<Rightarrow> string list \<Rightarrow> string" where
  "join sep [] = []"
| "join sep [x] = x"
| "join sep (x # y # ys) = x @ sep @ join sep (y # ys)"

text \<open>
  \<open>facts.slice().sort().join('|')\<close>: the default \<open>sort\<close> orders strings by their code
  units, which is the lexicographic order of \<open>string\<close> over the order of \<open>char\<close> codes.
\<close>

definition generateCacheKey :: "string list \<Rightarrow> string" where
  "generateCacheKey fs = join ''|'' (sort fs)"

text \<open>\<open>age < undefined\<close> is false.\<close>

definition isCacheValid :: "int \<Rightarrow> World \<Rightarrow> bool" where
  "isCacheValid ts w =
     (let age = now w - ts
      in case cacheExpiry (config w) of Some e \<Rightarrow> age < e | None \<Rightarrow> False)"

text \<open>
  The time that a call of the client spent waiting: each delay it asked of
  \<open>setTimeout\<close>, as the timer waits it.
\<close>

definition timeWaited :: "LLMRun \<Rightarrow> int list" where
  "timeWaited run = map timerDelay (waits run)"

text \<open>
  \<open>updateState\<close> resolves with a state name (\<open>null\<close> when it returns the current state of
  a record that has none) or rejects with the client's error: \<open>Inl\<close> is its message.
\<close>

definition callLLM :: "World \<Rightarrow> LLMRun \<times> World" where
  "callLLM w =
     (let run = llm_determineState (llmService w) (\<lambda>k. backend w (fetches w + k))
      in (run, w\<lparr>fetches := fetches w + attempts_made run,
                 llmCalls := Suc (llmCalls w),
                 now := now w + sum_list (timeWaited run)\<rparr>))"

definition updateState :: "World \<Rightarrow> (string + string option) \<times> World" where
  "updateState w =
     (let currentState0 = getState w; fs = facts currentState0 in
      if length fs = 0 then (Inr (currentState currentState0), w)
      else
        let cacheKey = generateCacheKey fs in
        case (case cache w cacheKey of
                Some e \<Rightarrow> if isCacheValid (ce_timestamp e) w then Some e else None
              | None \<Rightarrow> None) of
          Some cacheEntry \<Rightarrow>
            (Inr (Some (ce_state cacheEntry)),
             updateStateStore (ce_state cacheEntry) (ce_confidence cacheEntry) w)
        | None \<Rightarrow>
            (let (run, w1) = callLLM w in
             case outcome run of
               Inr response \<Rightarrow>
                 (let w2 = w1\<lparr>cache := (cache w1)(cacheKey \<mapsto>
                             \<lparr>ce_state = r_state response,
                              ce_confidence = r_confidence response,
                              ce_timestamp = now w1\<rparr>)\<rparr>
                  in (Inr (Some (r_state response)),
                      updateStateStore (r_state response) (r_confidence response) w2))
             | Inl msg \<Rightarrow>
                 (Inl msg, storeUpdate (\<lambda>state. state\<lparr>error := Some msg\<rparr>) w1)))"

definition determineState :: "World \<Rightarrow> (string + string option) \<times> World" where
  "determineState w =
     updateState
       (case updateTimer w of
          Some t \<Rightarrow> (clearTimeout t w)\<lparr>updateTimer := None\<rparr>
        | None \<Rightarrow> w)"

text \<open>The callback given to \<open>setTimeout\<close> by \<open>scheduleStateUpdate\<close>.\<close>

definition timerCallback :: "World \<Rightarrow> World" where
  "timerCallback w =
     (let (r, w1) = updateState (w\<lparr>debounceRuns := Suc (debounceRuns w)\<rparr>) in
      case r of
        Inr _ \<Rightarrow> w1
      | Inl msg \<Rightarrow> storeUpdate (\<lambda>state. state\<lparr>error := Some msg\<rparr>) w1)"

subsection \<open>The passing of time\<close>

text \<open>
  A pending timeout that is due runs its callback, the clock at least at its due time.
  \<open>advance d\<close> lets \<open>d\<close> milliseconds pass: the timeouts due by then run in the order
  they are due, then the clock stands at the new time.
\<close>

definition runTimeout :: "nat \<times> int \<Rightarrow> World \<Rightarrow> World" where
  "runTimeout t w =
     (if t \<in> set (timeouts w)
      then timerCallback (w\<lparr>timeouts := remove1 t (timeouts w), now := max (now w) (snd t)\<rparr>)
      else w)"

definition advance :: "int \<Rightarrow> World \<Rightarrow> World" where
  "advance d w =
     (let target = now w + d;
          due = sort_key snd (filter (\<lambda>t. snd t \<le> target) (timeouts w));
          w1 = fold runTimeout due w
      in w1\<lparr>now := max (now w1) target\<rparr>)"

subsection \<open>Parts of the cycle, named\<close>

text \<open>The cache entry that \<open>updateState\<close> would use.\<close>

definition validEntry :: "World \<Rightarrow> CacheEntry option" where
  "validEntry w =
     (case cache w (generateCacheKey (facts (store w))) of
        Some e \<Rightarrow> if isCacheValid (ce_timestamp e) w then Some e else None
      | None \<Rightarrow> None)"

text \<open>The world in which \<open>determineState\<close> runs its cycle: the pending timer cancelled.\<close>

definition cancelTimer :: "World \<Rightarrow> World" where
  "cancelTimer w =
     (case updateTimer w of
        Some t \<Rightarrow> (clearTimeout t w)\<lparr>updateTimer := None\<rparr>
      | None \<Rightarrow> w)"

subsection \<open>Bursts of fact mutations\<close>

text \<open>
  The three mutations that schedule a determination, and a burst of them: each element
  is the time that passes since the previous mutation, and the mutation then made.
\<close>

datatype Mutation =
    AddFact FactOrString
  | AddFacts "FactOrString list"
  | RemoveFact FactOrString

fun mutate :: "Mutation \<Rightarrow> World \<Rightarrow> World" where
  "mutate (AddFact f) w = addFact f w"
| "mutate (AddFacts fs) w = addFacts fs w"
| "mutate (RemoveFact f) w = removeFact f w"


text \<open>
  The pending timeouts of a store are at most the one whose id \<open>updateTimer\<close> holds.
  It holds of a new store and every operation keeps it.
\<close>

definition timerInv :: "World \<Rightarrow> bool" where
  "timerInv w =
     (case timeouts w of
        [] \<Rightarrow> True
      | [p] \<Rightarrow> updateTimer w = Some (fst p)
      | _ \<Rightarrow> False)"


subsection \<open>Example inputs\<close>

definition example_service :: LLMService where
  "example_service = \<lparr>svc_provider = gemini, svc_apiKey = ''key'', svc_retryCount = 3\<rparr>"

definition example_response :: LLMStateResponse where
  "example_response = \<lparr>r_state = ''A'', r_confidence = 0.9, r_reasoning = None\<rparr>"



definition example_config :: StateBotConfig where
  "example_config =
     \<lparr>provider = gemini, apiKey = ''key'',
      states = [(''A'', [''fact1'']), (''B'', [''fact2''])],
      cacheExpiry = None, debounceTime = None, retryCount = None,
      determinationThreshold = None\<rparr>"

text \<open>A remote API that is down for three attempts and answers from then on.\<close>

definition recovering_backend :: "nat \<Rightarrow> FetchResult" where
  "recovering_backend k = (if k < 3 then NetworkError ''down'' else Parsed example_response)"

definition example_world :: World where
  "example_world = addFact (Str ''fact1'') (constructor example_config 0 recovering_backend)"


text \<open>A store with facts \<open>f1\<close>, \<open>f2\<close> and current state \<open>X\<close>, watched by one subscriber.\<close>

definition watched_state :: StateBotState where
  "watched_state =
     \<lparr>currentState = Some ''X'', previousState = None, facts = [''f1'', ''f2''],
      confidence = 0.9, lastUpdated = 0,
      transitions = [\<lparr>tr_from = None, tr_to = ''X'', tr_timestamp = 0,
                      tr_facts = [''f1'', ''f2'']\<rparr>],
      error = None\<rparr>"

definition watched_world :: World where
  "watched_world =
     subscribe ((constructor example_config 0 recovering_backend)\<lparr>store := watched_state\<rparr>)"

section \<open>The record as objects (what getState hands out)\<close>

text \<open>
  In the model above the record is a value, and a value cannot be changed by whoever
  receives it. In the program the \<open>writable\<close> holds a reference to a record object,
  whose \<open>facts\<close> and \<open>transitions\<close> fields are references to arrays, and \<open>get\<close> returns
  that reference. This section models the record on a heap of objects, so that a copy
  can be told from the object itself. A transition is kept in the cell of its array
  (its \<open>facts\<close> field is a reference to the array copied with \<open>[...state.facts]\<close>).
\<close>

type_synonym ref = nat

record TransitionObj =
  o_from :: "string option"
  o_to :: string
  o_timestamp :: int
  o_facts :: ref

record StateObj =
  s_currentState :: "string option"
  s_previousState :: "string option"
  s_facts :: ref
  s_confidence :: real
  s_lastUpdated :: int
  s_transitions :: ref
  s_error :: "string option"

datatype Object =
    StringArray "string list"
  | TransitionArray "TransitionObj list"
  | StateObject StateObj

record Heap =
  objects :: "ref \<Rightarrow> Object option"
  nextRef :: ref
  current :: ref

text \<open>A new object gets the next free reference; nothing allocated is ever freed.\<close>

definition alloc :: "Object \<Rightarrow> Heap \<Rightarrow> ref \<times> Heap" where
  "alloc obj h =
     (nextRef h, h\<lparr>objects := (objects h)(nextRef h \<mapsto> obj), nextRef := Suc (nextRef h)\<rparr>)"

text \<open>
  Reading an array through a reference. A reference of the program always points to an
  object of its type; the other cases cannot arise and read as the empty array.
\<close>

definition stringsAt :: "Heap \<Rightarrow> ref \<Rightarrow> string list" where
  "stringsAt h r = (case objects h r of Some (StringArray xs) \<Rightarrow> xs | _ \<Rightarrow> [])"

definition transitionsAt :: "Heap \<Rightarrow> ref \<Rightarrow> TransitionObj list" where
  "transitionsAt h r = (case objects h r of Some (TransitionArray ts) \<Rightarrow> ts | _ \<Rightarrow> [])"

text \<open>
  \<open>set\<close> and \<open>update\<close> of the \<open>writable\<close>, and \<open>get\<close> in \<open>getState\<close>. The function given to
  \<open>update\<close> builds its result with an object spread, \<open>{...state, field: value}\<close>: a new
  record object that shares every array it does not replace.
\<close>

definition h_set :: "StateObj \<Rightarrow> Heap \<Rightarrow> Heap" where
  "h_set s h = (let (r, h1) = alloc (StateObject s) h in h1\<lparr>current := r\<rparr>)"

definition h_update :: "(StateObj \<Rightarrow> Heap \<Rightarrow> StateObj \<times> Heap) \<Rightarrow> Heap \<Rightarrow> Heap" where
  "h_update f h =
     (case objects h (current h) of
        Some (StateObject s) \<Rightarrow> (let (s', h1) = f s h in h_set s' h1)
      | _ \<Rightarrow> h)"

definition h_getState :: "Heap \<Rightarrow> ref" where
  "h_getState h = current h"

text \<open>The object literal of the field initializer and of \<open>reset\<close>: two new empty arrays.\<close>

definition h_initial :: "int \<Rightarrow> Heap \<Rightarrow> Heap" where
  "h_initial t h =
     (let (f, h1) = alloc (StringArray []) h;
          (ts, h2) = alloc (TransitionArray []) h1
      in h_set \<lparr>s_currentState = None, s_previousState = None, s_facts = f,
                 s_confidence = 0, s_lastUpdated = t, s_transitions = ts,
                 s_error = None\<rparr> h2)"

definition h_new :: "int \<Rightarrow> Heap" where
  "h_new t = h_initial t \<lparr>objects = Map.empty, nextRef = 0, current = 0\<rparr>"

text \<open>
  The mutations of the store, as they allocate: \<open>[...state.facts, factContent]\<close> and
  \<open>filter\<close> build a new array.
\<close>

definition h_addFact :: "string \<Rightarrow> Heap \<Rightarrow> Heap" where
  "h_addFact x h =
     h_update (\<lambda>state h1.
        let (f, h2) = alloc (StringArray (stringsAt h1 (s_facts state) @ [x])) h1
        in (state\<lparr>s_facts := f\<rparr>, h2)) h"

definition h_addFacts :: "string list \<Rightarrow> Heap \<Rightarrow> Heap" where
  "h_addFacts xs h =
     h_update (\<lambda>state h1.
        let (f, h2) = alloc (StringArray (stringsAt h1 (s_facts state) @ xs)) h1
        in (state\<lparr>s_facts := f\<rparr>, h2)) h"

definition h_removeFact :: "string \<Rightarrow> Heap \<Rightarrow> Heap" where
  "h_removeFact x h =
     h_update (\<lambda>state h1.
        let (f, h2) = alloc (StringArray (filter (\<lambda>f. f \<noteq> x)
                                              (stringsAt h1 (s_facts state)))) h1
        in (state\<lparr>s_facts := f\<rparr>, h2)) h"

definition h_clearFacts :: "Heap \<Rightarrow> Heap" where
  "h_clearFacts h =
     h_update (\<lambda>state h1. (state\<lparr>s_currentState := None, s_confidence := 0\<rparr>, h1))
       (h_update (\<lambda>state h1.
          let (f, h2) = alloc (StringArray []) h1 in (state\<lparr>s_facts := f\<rparr>, h2)) h)"

definition h_reset :: "int \<Rightarrow> Heap \<Rightarrow> Heap" where
  "h_reset t h = h_initial t h"

definition h_updateStateStore :: "string \<Rightarrow> real \<Rightarrow> int \<Rightarrow> Heap \<Rightarrow> Heap" where
  "h_updateStateStore newState conf t h =
     h_update (\<lambda>state h1.
        let stateChanged = (s_currentState state \<noteq> Some newState);
            (transitions', h4) =
              (if stateChanged
               then let (f, h2) = alloc (StringArray (stringsAt h1 (s_facts state))) h1
                    in alloc (TransitionArray (transitionsAt h2 (s_transitions state) @
                                [\<lparr>o_from = s_currentState state, o_to = newState,
                                  o_timestamp = t, o_facts = f\<rparr>])) h2
               else (s_transitions state, h1))
        in (state\<lparr>s_previousState := (if stateChanged then s_currentState state
                                         else s_previousState state),
                   s_currentState := Some newState,
                   s_confidence := conf,
                   s_lastUpdated := t,
                   s_transitions := transitions',
                   s_error := None\<rparr>, h4)) h"

text \<open>The update of the two \<open>catch\<close> blocks.\<close>

definition h_setError :: "string \<Rightarrow> Heap \<Rightarrow> Heap" where
  "h_setError msg h = h_update (\<lambda>state h1. (state\<lparr>s_error := Some msg\<rparr>, h1)) h"

text \<open>The updates the store makes, as one type.\<close>

datatype StoreOp =
    OpAddFact string
  | OpAddFacts "string list"
  | OpRemoveFact string
  | OpClearFacts
  | OpReset int
  | OpDetermined string real int
  | OpError string

fun h_apply :: "StoreOp \<Rightarrow> Heap \<Rightarrow> Heap" where
  "h_apply (OpAddFact x) h = h_addFact x h"
| "h_apply (OpAddFacts xs) h = h_addFacts xs h"
| "h_apply (OpRemoveFact x) h = h_removeFact x h"
| "h_apply OpClearFacts h = h_clearFacts h"
| "h_apply (OpReset t) h = h_reset t h"
| "h_apply (OpDetermined newState conf t) h = h_updateStateStore newState conf t h"
| "h_apply (OpError msg) h = h_setError msg h"

text \<open>The record value that a reference to a record object stands for.\<close>

definition readTransition :: "Heap \<Rightarrow> TransitionObj \<Rightarrow> Transition" where
  "readTransition h t =
     \<lparr>tr_from = o_from t, tr_to = o_to t, tr_timestamp = o_timestamp t,
      tr_facts = stringsAt h (o_facts t)\<rparr>"

definition view :: "Heap \<Rightarrow> StateObj \<Rightarrow> StateBotState" where
  "view h s =
     \<lparr>currentState = s_currentState s, previousState = s_previousState s,
      facts = stringsAt h (s_facts s), confidence = s_confidence s,
      lastUpdated = s_lastUpdated s,
      transitions = map (readTransition h) (transitionsAt h (s_transitions s)),
      error = s_error s\<rparr>"

definition readState :: "Heap \<Rightarrow> ref \<Rightarrow> StateBotState option" where
  "readState h r =
     (case objects h r of Some (StateObject s) \<Rightarrow> Some (view h s) | _ \<Rightarrow> None)"

text \<open>
  What a caller can do with the reference it got: \<open>bot.getState().facts.push(x)\<close>.
\<close>

definition caller_push :: "ref \<Rightarrow> string \<Rightarrow> Heap \<Rightarrow> Heap" where
  "caller_push r x h =
     (case objects h r of
        Some (StateObject s) \<Rightarrow>
          h\<lparr>objects := (objects h)(s_facts s \<mapsto> StringArray (stringsAt h (s_facts s) @ [x]))\<rparr>
      | _ \<Rightarrow> h)"

text \<open>
  A record object is closed when its arrays are allocated, its \<open>facts\<close> is an array of
  strings and the transitions' fact arrays are allocated. \<open>wfAt h r\<close>: \<open>r\<close> is a closed
  record object of \<open>h\<close>.
\<close>

definition closed :: "Heap \<Rightarrow> StateObj \<Rightarrow> bool" where
  "closed h s =
     (s_facts s < nextRef h \<and> s_transitions s < nextRef h
      \<and> (case objects h (s_facts s) of Some (StringArray _) \<Rightarrow> True | _ \<Rightarrow> False)
      \<and> list_all (\<lambda>t. o_facts t < nextRef h) (transitionsAt h (s_transitions s)))"

definition wfAt :: "Heap \<Rightarrow> ref \<Rightarrow> bool" where
  "wfAt h r =
     (case objects h r of
        Some (StateObject s) \<Rightarrow> r < nextRef h \<and> closed h s
      | _ \<Rightarrow> False)"

text \<open>\<open>h'\<close> has every object of \<open>h\<close>, unchanged, and possibly more.\<close>

definition extends :: "Heap \<Rightarrow> Heap \<Rightarrow> bool" where
  "extends h h' = (nextRef h \<le> nextRef h' \<and> (\<forall>a<nextRef h. objects h' a = objects h a))"

text \<open>The heap holds, as the current record, the record of the world \<open>w\<close>.\<close>

definition represents :: "Heap \<Rightarrow> World \<Rightarrow> bool" where
  "represents h w = (wfAt h (current h) \<and> readState h (current h) = Some (store w))"

text \<open>The function that \<open>updateStateStore\<close> gives to \<open>update\<close>.\<close>

definition applyResult :: "string \<Rightarrow> real \<Rightarrow> int \<Rightarrow> StateBotState \<Rightarrow> StateBotState" where
  "applyResult newState conf t state =
     state\<lparr>previousState := (if currentState state \<noteq> Some newState then currentState state
                                else previousState state),
           currentState := Some newState,
           confidence := conf,
           lastUpdated := t,
           transitions := (if currentState state \<noteq> Some newState
                           then transitions state @
                                  [\<lparr>tr_from = currentState state, tr_to = newState,
                                    tr_timestamp = t, tr_facts = facts state\<rparr>]
                           else transitions state),
           error := None\<rparr>"

text \<open>A new store after \<open>addFact("f1")\<close>.\<close>

definition example_heap :: Heap where
  "example_heap = h_addFact ''f1'' (h_new 0)"

section \<open>The retry loop\<close>

text \<open>An attempt fails exactly when no response was parsed.\<close>

lemma attempt_fails_iff: "isl (attempt p x) = (\<forall>r. x \<noteq> Parsed r)"
  by (cases x) simp_all

text \<open>The loop from attempt \<open>a\<close> on, when every remaining attempt fails.\<close>

lemma retryLoop_fail:
  "\<lbrakk> \<forall>k. a \<le> k \<and> k < n \<longrightarrow> attempt p (be k) = Inl (msg k); a \<le> n \<rbrakk> \<Longrightarrow>
   retryLoop p (int n) be a le ws =
     \<lparr>outcome = Inl (if a < n then msg (n - 1)
                      else (case le of Some e \<Rightarrow> e
                            | None \<Rightarrow> ''Failed to determine state with '' @ apiName p @ '' API'')),
      attempts_made = n,
      waits = ws @ map (\<lambda>k. 2 ^ k * 500) [Suc a ..< n]\<rparr>"
proof (induction "n - a" arbitrary: a le ws)
  case 0
  then show ?case by (simp add: retryLoop.simps)
next
  case (Suc d)
  then have lt: "a < n" by simp
  have step: "retryLoop p (int n) be a le ws =
      retryLoop p (int n) be (Suc a) (Some (msg a))
        (if Suc a < n then ws @ [2 ^ Suc a * 500] else ws)"
    using lt Suc.prems(1) by (subst retryLoop.simps) simp
  have IH: "retryLoop p (int n) be (Suc a) (Some (msg a)) ws' =
     \<lparr>outcome = Inl (if Suc a < n then msg (n - 1) else msg a),
      attempts_made = n,
      waits = ws' @ map (\<lambda>k. 2 ^ k * 500) [Suc (Suc a) ..< n]\<rparr>" for ws'
    using Suc.hyps(1)[of "Suc a" "Some (msg a)" ws'] Suc.hyps(2) Suc.prems lt by simp
  show ?case
  proof (cases "Suc a < n")
    case True
    then show ?thesis using step IH lt by (simp add: upt_rec[of "Suc a" n])
  next
    case False
    then have "n = Suc a" using lt by simp
    then show ?thesis using step IH by simp
  qed
qed

lemma retryLoop_succeed:
  "\<lbrakk> \<forall>k. a \<le> k \<and> k < j \<longrightarrow> isl (attempt p (be k)); attempt p (be j) = Inr r;
     a \<le> j; int j < rc \<rbrakk> \<Longrightarrow>
   retryLoop p rc be a le ws =
     \<lparr>outcome = Inr r, attempts_made = Suc j,
      waits = ws @ map (\<lambda>k. 2 ^ k * 500) [Suc a ..< Suc j]\<rparr>"
proof (induction "j - a" arbitrary: a le ws)
  case 0
  then have "a = j" by simp
  then show ?case using 0 by (subst retryLoop.simps) simp
next
  case (Suc d)
  then have lt: "a < j" by simp
  then obtain e where e: "attempt p (be a) = Inl e"
    using Suc.prems(1) by (cases "attempt p (be a)") auto
  have step: "retryLoop p rc be a le ws =
      retryLoop p rc be (Suc a) (Some e) (ws @ [2 ^ Suc a * 500])"
    using lt e Suc.prems(4) by (subst retryLoop.simps) simp
  have "retryLoop p rc be (Suc a) (Some e) (ws @ [2 ^ Suc a * 500]) =
     \<lparr>outcome = Inr r, attempts_made = Suc j,
      waits = (ws @ [2 ^ Suc a * 500]) @ map (\<lambda>k. 2 ^ k * 500) [Suc (Suc a) ..< Suc j]\<rparr>"
    using Suc.hyps(2) Suc.prems lt by (intro Suc.hyps(1)) auto
  moreover have "[Suc a ..< Suc j] = Suc a # [Suc (Suc a) ..< Suc j]"
    using lt by (simp add: upt_conv_Cons del: upt_Suc)
  ultimately show ?case using step by (simp del: upt_Suc)
qed

lemma llm_all_fail:
  assumes "\<forall>k<n. \<forall>r. be k \<noteq> Parsed r" and "svc_retryCount svc = int n"
  shows "llm_determineState svc be =
     \<lparr>outcome = (if 0 < n then attempt (svc_provider svc) (be (n - 1))
                 else Inl (''Failed to determine state with '' @ apiName (svc_provider svc) @ '' API'')),
      attempts_made = n, waits = map (\<lambda>k. 2 ^ k * 500) [1 ..< n]\<rparr>"
proof -
  define msg where "msg k = projl (attempt (svc_provider svc) (be k))" for k
  have "\<forall>k. 0 \<le> k \<and> k < n \<longrightarrow> attempt (svc_provider svc) (be k) = Inl (msg k)"
    using assms(1) by (simp add: msg_def attempt_fails_iff)
  from retryLoop_fail[OF this, of None "[]"] show ?thesis
    using assms by (auto simp: llm_determineState_def msg_def attempt_fails_iff)
qed

lemma llm_first_success:
  assumes "\<forall>k<j. \<forall>r. be k \<noteq> Parsed r" and "be j = Parsed r" and "int j < svc_retryCount svc"
  shows "llm_determineState svc be =
     \<lparr>outcome = Inr r, attempts_made = Suc j, waits = map (\<lambda>k. 2 ^ k * 500) [1 ..< Suc j]\<rparr>"
proof -
  have "\<forall>k. 0 \<le> k \<and> k < j \<longrightarrow> isl (attempt (svc_provider svc) (be k))"
    using assms(1) by (simp add: attempt_fails_iff)
  from retryLoop_succeed[OF this _ _ assms(3), of r None "[]"] show ?thesis
    using assms(2) by (simp add: llm_determineState_def del: upt_Suc)
qed

section \<open>What each operation touches\<close>

lemma storeUpdate_fields [simp]:
  "store (storeUpdate f w) = f (store w)"
  "config (storeUpdate f w) = config w"
  "llmService (storeUpdate f w) = llmService w"
  "updateTimer (storeUpdate f w) = updateTimer w"
  "cache (storeUpdate f w) = cache w"
  "now (storeUpdate f w) = now w"
  "timeouts (storeUpdate f w) = timeouts w"
  "nextTimeout (storeUpdate f w) = nextTimeout w"
  "backend (storeUpdate f w) = backend w"
  "fetches (storeUpdate f w) = fetches w"
  "llmCalls (storeUpdate f w) = llmCalls w"
  "debounceRuns (storeUpdate f w) = debounceRuns w"
  "subscribers (storeUpdate f w) = map (\<lambda>seen. seen @ [f (store w)]) (subscribers w)"
  by (simp_all add: storeUpdate_def storeSet_def)

lemma updateStateStore_fields [simp]:
  "config (updateStateStore s c w) = config w"
  "llmService (updateStateStore s c w) = llmService w"
  "updateTimer (updateStateStore s c w) = updateTimer w"
  "cache (updateStateStore s c w) = cache w"
  "now (updateStateStore s c w) = now w"
  "timeouts (updateStateStore s c w) = timeouts w"
  "nextTimeout (updateStateStore s c w) = nextTimeout w"
  "backend (updateStateStore s c w) = backend w"
  "fetches (updateStateStore s c w) = fetches w"
  "llmCalls (updateStateStore s c w) = llmCalls w"
  "debounceRuns (updateStateStore s c w) = debounceRuns w"
  by (simp_all add: updateStateStore_def)

lemma updateStateStore_store [simp]:
  "currentState (store (updateStateStore s c w)) = Some s"
  "confidence (store (updateStateStore s c w)) = c"
  "error (store (updateStateStore s c w)) = None"
  "facts (store (updateStateStore s c w)) = facts (store w)"
  by (simp_all add: updateStateStore_def Let_def)

lemma callLLM_fields [simp]:
  "config (snd (callLLM w)) = config w"
  "store (snd (callLLM w)) = store w"
  "llmService (snd (callLLM w)) = llmService w"
  "updateTimer (snd (callLLM w)) = updateTimer w"
  "cache (snd (callLLM w)) = cache w"
  "timeouts (snd (callLLM w)) = timeouts w"
  "nextTimeout (snd (callLLM w)) = nextTimeout w"
  "backend (snd (callLLM w)) = backend w"
  "llmCalls (snd (callLLM w)) = Suc (llmCalls w)"
  "debounceRuns (snd (callLLM w)) = debounceRuns w"
  "subscribers (snd (callLLM w)) = subscribers w"
  by (simp_all add: callLLM_def Let_def)

lemma updateState_cases:
  "updateState w =
     (if facts (store w) = [] then (Inr (currentState (store w)), w)
      else case validEntry w of
        Some e \<Rightarrow> (Inr (Some (ce_state e)), updateStateStore (ce_state e) (ce_confidence e) w)
      | None \<Rightarrow>
         (case outcome (fst (callLLM w)) of
            Inr response \<Rightarrow>
              (Inr (Some (r_state response)),
               updateStateStore (r_state response) (r_confidence response)
                 ((snd (callLLM w))\<lparr>cache := (cache w)(generateCacheKey (facts (store w)) \<mapsto>
                     \<lparr>ce_state = r_state response, ce_confidence = r_confidence response,
                      ce_timestamp = now (snd (callLLM w))\<rparr>)\<rparr>))
          | Inl msg \<Rightarrow>
              (Inl msg, storeUpdate (\<lambda>state. state\<lparr>error := Some msg\<rparr>) (snd (callLLM w)))))"
  by (simp add: updateState_def validEntry_def getState_def Let_def split_beta
           split: option.splits sum.splits)

lemma updateState_fail_store:
  "fst (updateState w) = Inl msg \<Longrightarrow> store (snd (updateState w)) = (store w)\<lparr>error := Some msg\<rparr>"
  by (simp add: updateState_cases split: if_splits option.splits sum.splits)

lemma updateState_ok_error:
  "facts (store w) \<noteq> [] \<Longrightarrow> fst (updateState w) = Inr s \<Longrightarrow>
     error (store (snd (updateState w))) = None \<and> currentState (store (snd (updateState w))) = s"
  by (auto simp add: updateState_cases split: if_splits option.splits sum.splits)

lemma clearTimeout_fields [simp]:
  "store (clearTimeout t w) = store w"
  "config (clearTimeout t w) = config w"
  "llmService (clearTimeout t w) = llmService w"
  "updateTimer (clearTimeout t w) = updateTimer w"
  "cache (clearTimeout t w) = cache w"
  "now (clearTimeout t w) = now w"
  "nextTimeout (clearTimeout t w) = nextTimeout w"
  "backend (clearTimeout t w) = backend w"
  "fetches (clearTimeout t w) = fetches w"
  "llmCalls (clearTimeout t w) = llmCalls w"
  "debounceRuns (clearTimeout t w) = debounceRuns w"
  "subscribers (clearTimeout t w) = subscribers w"
  by (simp_all add: clearTimeout_def)

lemma determineState_cancel: "determineState w = updateState (cancelTimer w)"
  by (simp add: determineState_def cancelTimer_def)

lemma cancelTimer_fields [simp]:
  "store (cancelTimer w) = store w"
  "config (cancelTimer w) = config w"
  "llmService (cancelTimer w) = llmService w"
  "updateTimer (cancelTimer w) = None"
  "cache (cancelTimer w) = cache w"
  "now (cancelTimer w) = now w"
  "nextTimeout (cancelTimer w) = nextTimeout w"
  "backend (cancelTimer w) = backend w"
  "fetches (cancelTimer w) = fetches w"
  "llmCalls (cancelTimer w) = llmCalls w"
  "debounceRuns (cancelTimer w) = debounceRuns w"
  "subscribers (cancelTimer w) = subscribers w"
  by (simp_all add: cancelTimer_def split: option.splits)

lemma cancelTimer_timeouts: "timerInv w \<Longrightarrow> timeouts (cancelTimer w) = []"
  by (auto simp: cancelTimer_def timerInv_def clearTimeout_def split: option.splits list.splits)

lemma updateState_keeps:
  "timeouts (snd (updateState w)) = timeouts w"
  "updateTimer (snd (updateState w)) = updateTimer w"
  "debounceRuns (snd (updateState w)) = debounceRuns w"
  "config (snd (updateState w)) = config w"
  "nextTimeout (snd (updateState w)) = nextTimeout w"
  "facts (store (snd (updateState w))) = facts (store w)"
  by (simp_all add: updateState_cases split: option.splits sum.splits)

lemma callLLM_fetches:
  "fetches (snd (callLLM w)) = fetches w + attempts_made (fst (callLLM w))"
  by (simp add: callLLM_def Let_def)

lemma callLLM_run:
  "fst (callLLM w) = llm_determineState (llmService w) (\<lambda>k. backend w (fetches w + k))"
  by (simp add: callLLM_def Let_def)

lemma updateState_debounceRuns:
  "fst (updateState (w\<lparr>debounceRuns := n\<rparr>)) = fst (updateState w)"
  by (simp add: updateState_def getState_def isCacheValid_def callLLM_def Let_def split_beta
        split: option.splits sum.splits)

section \<open>The transition append law\<close>

text \<open>
  C1. Applying a determination result (newState, confidence) to the store appends the
  transition \<open>{from: old current state, to: newState, timestamp: now, facts: the active
  facts}\<close> when newState differs from the current state, and leaves the transition list
  as it is when they are equal: the list changes if and only if the state does. In
  both cases \<open>lastUpdated\<close> and \<open>confidence\<close> are refreshed and the current state is
  newState; \<open>previousState\<close> becomes the old current state only when the state changed.
\<close>

theorem transition_append_law:
  "transitions (store (updateStateStore newState conf w)) =
     (if currentState (store w) \<noteq> Some newState
      then transitions (store w) @
             [\<lparr>tr_from = currentState (store w), tr_to = newState,
               tr_timestamp = now w, tr_facts = facts (store w)\<rparr>]
      else transitions (store w))
   \<and> ((transitions (store (updateStateStore newState conf w)) = transitions (store w))
        = (currentState (store w) = Some newState))
   \<and> lastUpdated (store (updateStateStore newState conf w)) = now w
   \<and> confidence (store (updateStateStore newState conf w)) = conf
   \<and> currentState (store (updateStateStore newState conf w)) = Some newState
   \<and> previousState (store (updateStateStore newState conf w)) =
       (if currentState (store w) \<noteq> Some newState then currentState (store w)
        else previousState (store w))
   \<and> facts (store (updateStateStore newState conf w)) = facts (store w)"
  by (simp add: updateStateStore_def storeUpdate_def storeSet_def Let_def)

section \<open>Errors of a determination cycle\<close>

lemma stale_fail:
  "fst (determineState w) = Inl msg \<Longrightarrow>
     store (snd (determineState w)) = (store w)\<lparr>error := Some msg\<rparr>"
  using updateState_fail_store[of "cancelTimer w" msg] by (simp add: determineState_cancel)

text \<open>
  C2. When a determination cycle fails (the client throws, after its retries), the
  message is recorded in the \<open>error\<close> field and the record is otherwise as before: the
  current and previous state, the facts, the confidence and the transitions are kept.
  This holds for an explicit \<open>determineState()\<close> and for the cycle run by the debounce
  timer. Every cycle that yields a determination (facts are present and the cycle
  succeeds) leaves \<open>error\<close> undefined, with the determined state as the current one.
\<close>

theorem stale_state_on_error:
  "(fst (determineState w) = Inl msg \<longrightarrow>
      store (snd (determineState w)) = (store w)\<lparr>error := Some msg\<rparr>)
   \<and> (fst (updateState w) = Inl msg \<longrightarrow>
      store (timerCallback w) = (store w)\<lparr>error := Some msg\<rparr>)
   \<and> (facts (store w) \<noteq> [] \<and> fst (determineState w) = Inr s \<longrightarrow>
      error (store (snd (determineState w))) = None
      \<and> currentState (store (snd (determineState w))) = s)
   \<and> (facts (store w) \<noteq> [] \<and> fst (updateState w) = Inr s \<longrightarrow>
      error (store (timerCallback w)) = None \<and> currentState (store (timerCallback w)) = s)"
proof (intro conjI impI)
  assume "fst (determineState w) = Inl msg"
  then show "store (snd (determineState w)) = (store w)\<lparr>error := Some msg\<rparr>"
    by (rule stale_fail)
next
  let ?w = "w\<lparr>debounceRuns := Suc (debounceRuns w)\<rparr>"
  assume "fst (updateState w) = Inl msg"
  then have f: "fst (updateState ?w) = Inl msg" by (simp add: updateState_debounceRuns)
  from updateState_fail_store[OF f] f
  show "store (timerCallback w) = (store w)\<lparr>error := Some msg\<rparr>"
    by (simp add: timerCallback_def split_beta)
next
  assume a: "facts (store w) \<noteq> [] \<and> fst (determineState w) = Inr s"
  then show "error (store (snd (determineState w))) = None"
    using updateState_ok_error[of "cancelTimer w" s] by (simp add: determineState_cancel)
  from a show "currentState (store (snd (determineState w))) = s"
    using updateState_ok_error[of "cancelTimer w" s] by (simp add: determineState_cancel)
next
  let ?w = "w\<lparr>debounceRuns := Suc (debounceRuns w)\<rparr>"
  assume "facts (store w) \<noteq> [] \<and> fst (updateState w) = Inr s"
  then have a: "facts (store ?w) \<noteq> [] \<and> fst (updateState ?w) = Inr s"
    by (simp add: updateState_debounceRuns)
  then show "error (store (timerCallback w)) = None"
    using updateState_ok_error[of ?w s] by (simp add: timerCallback_def split_beta)
  from a show "currentState (store (timerCallback w)) = s"
    using updateState_ok_error[of ?w s] by (simp add: timerCallback_def split_beta)
qed

text \<open>
  The example: the API is down during the first call, which fails after three attempts
  and records the error; the second call is answered and clears it.
\<close>

lemma example_world_fields:
  "facts (store example_world) = [''fact1'']"
  "error (store example_world) = None"
  "cache example_world = Map.empty"
  "llmService example_world = example_service"
  "backend example_world = recovering_backend"
  "fetches example_world = 0"
  by (simp_all add: example_world_def addFact_def scheduleStateUpdate_def setTimeout_def
        constructor_def initialState_def createLLMService_def defaultConfig_def js_or_def
        example_config_def example_service_def split_beta Let_def)

lemma example_first_run:
  "fst (callLLM (cancelTimer example_world)) =
     \<lparr>outcome = Inl ''down'', attempts_made = 3, waits = map (\<lambda>k. 2 ^ k * 500) [1 ..< 3]\<rparr>"
proof -
  have "\<forall>k<3. \<forall>r. recovering_backend k \<noteq> Parsed r" by (simp add: recovering_backend_def)
  from llm_all_fail[OF this, of example_service] show ?thesis
    by (simp add: callLLM_run example_world_fields example_service_def recovering_backend_def)
qed

lemma example_first_call:
  "fst (determineState example_world) = Inl ''down''"
  by (simp add: determineState_cancel updateState_cases validEntry_def example_world_fields
        example_first_run)

lemma example_after_failure:
  "facts (store (snd (determineState example_world))) = [''fact1'']"
  "cache (snd (determineState example_world)) = Map.empty"
  "llmService (snd (determineState example_world)) = example_service"
  "backend (snd (determineState example_world)) = recovering_backend"
  "fetches (snd (determineState example_world)) = 3"
  by (simp_all add: determineState_cancel updateState_cases validEntry_def example_world_fields
        example_first_run callLLM_fetches)

lemma example_second_run:
  "fst (callLLM (cancelTimer (snd (determineState example_world)))) =
     \<lparr>outcome = Inr example_response, attempts_made = Suc 0,
      waits = map (\<lambda>k. 2 ^ k * 500) [1 ..< Suc 0]\<rparr>"
proof -
  have "\<forall>k<0. \<forall>r. recovering_backend (3 + k) \<noteq> Parsed r" by simp
  from llm_first_success[OF this, of example_response example_service] show ?thesis
    by (simp add: callLLM_run example_after_failure example_service_def recovering_backend_def)
qed

lemma example_second_call:
  "fst (determineState (snd (determineState example_world))) = Inr (Some ''A'')"
  by (simp add: determineState_cancel[of "snd (determineState example_world)"]
        updateState_cases[of "cancelTimer (snd (determineState example_world))"]
        validEntry_def example_after_failure example_second_run example_response_def)

lemma example_timer_run:
  "fst (callLLM example_world) =
     \<lparr>outcome = Inl ''down'', attempts_made = 3, waits = map (\<lambda>k. 2 ^ k * 500) [1 ..< 3]\<rparr>"
proof -
  have "\<forall>k<3. \<forall>r. recovering_backend k \<noteq> Parsed r" by (simp add: recovering_backend_def)
  from llm_all_fail[OF this, of example_service] show ?thesis
    by (simp add: callLLM_run example_world_fields example_service_def recovering_backend_def)
qed

lemma example_timer_fails: "fst (updateState example_world) = Inl ''down''"
  by (simp add: updateState_cases validEntry_def example_world_fields example_timer_run)

lemma cancelTimer_idle: "updateTimer w = None \<Longrightarrow> cancelTimer w = w"
  by (simp add: cancelTimer_def)

lemma determineState_updateTimer: "updateTimer (snd (determineState w)) = None"
  by (simp add: determineState_cancel updateState_keeps)

lemma example_timer_recovers:
  "fst (updateState (snd (determineState example_world))) = Inr (Some ''A'')"
proof -
  have "cancelTimer (snd (determineState example_world)) = snd (determineState example_world)"
    by (rule cancelTimer_idle) (rule determineState_updateTimer)
  then show ?thesis
    using example_second_call
    by (simp add: determineState_cancel[of "snd (determineState example_world)"])
qed

theorem stale_state_on_error_witness:
  "fst (determineState example_world) = Inl ''down''
   \<and> store (snd (determineState example_world)) = (store example_world)\<lparr>error := Some ''down''\<rparr>
   \<and> store (timerCallback example_world) = (store example_world)\<lparr>error := Some ''down''\<rparr>
   \<and> fst (determineState (snd (determineState example_world))) = Inr (Some ''A'')
   \<and> error (store (snd (determineState (snd (determineState example_world))))) = None
   \<and> currentState (store (snd (determineState (snd (determineState example_world))))) = Some ''A''
   \<and> error (store (timerCallback (snd (determineState example_world)))) = None"
  using stale_state_on_error [of example_world "''down''"]
        stale_state_on_error [of "snd (determineState example_world)" _ "Some ''A''"]
        example_first_call example_second_call example_after_failure(1)
        example_timer_fails example_timer_recovers
  by simp

section \<open>The cache key\<close>

text \<open>
  C3. Two fact lists that are permutations of each other (the same facts with the same
  multiplicities) have the same cache key, and the key is the join with \<open>|\<close> of a sorted
  list holding exactly the facts of the input, duplicates included.
\<close>

theorem cache_key_permutation:
  "mset xs = mset ys \<Longrightarrow>
     generateCacheKey xs = generateCacheKey ys
     \<and> (\<exists>zs. sorted zs \<and> mset zs = mset xs \<and> generateCacheKey xs = join ''|'' zs)"
proof -
  assume eq: "mset xs = mset ys"
  have "sort xs = sort ys"
    by (rule properties_for_sort) (simp_all add: eq)
  moreover have "sorted (sort xs) \<and> mset (sort xs) = mset xs" by simp
  ultimately show ?thesis unfolding generateCacheKey_def by metis
qed

theorem cache_key_permutation_witness:
  "generateCacheKey [''b'', ''a'', ''a''] = generateCacheKey [''a'', ''b'', ''a'']"
  using cache_key_permutation [of "[''b'', ''a'', ''a'']" "[''a'', ''b'', ''a'']"] by simp

section \<open>Retries of the LLM clients\<close>






lemma validEntry_cancelTimer: "validEntry (cancelTimer w) = validEntry w"
  by (simp add: validEntry_def isCacheValid_def split: option.splits)

text \<open>
  Seen from the store: when no valid cache entry stands in the way and the API fails
  \<open>n - 1\<close> times and then answers, \<open>determineState()\<close> of the store resolves with the
  answered state, which becomes the current state, after \<open>n\<close> fetches.
\<close>

lemma determineState_resolves_after_retries:
  assumes facts: "facts (store w) \<noteq> []" and miss: "validEntry w = None"
      and rc: "svc_retryCount (llmService w) = int n" and pos: "0 < n"
      and fails: "\<forall>k<n - 1. \<forall>r. backend w (fetches w + k) \<noteq> Parsed r"
      and answer: "backend w (fetches w + (n - 1)) = Parsed resp"
  shows "fst (determineState w) = Inr (Some (r_state resp))
       \<and> currentState (store (snd (determineState w))) = Some (r_state resp)
       \<and> confidence (store (snd (determineState w))) = r_confidence resp
       \<and> fetches (snd (determineState w)) = fetches w + n"
proof -
  let ?c = "cancelTimer w"
  have lt: "int (n - 1) < svc_retryCount (llmService w)" using rc pos by simp
  have run: "fst (callLLM ?c) =
      \<lparr>outcome = Inr resp, attempts_made = Suc (n - 1),
       waits = map (\<lambda>k. 2 ^ k * 500) [1 ..< Suc (n - 1)]\<rparr>"
    using llm_first_success[of "n - 1" "\<lambda>k. backend w (fetches w + k)" resp "llmService w",
            OF fails answer lt]
    by (simp add: callLLM_run)
  have n: "Suc (n - 1) = n" using pos by simp
  show ?thesis
    using facts miss pos
    by (simp add: determineState_cancel updateState_cases validEntry_cancelTimer run
          callLLM_fetches n del: upt_Suc)
qed

section \<open>Clearing the facts\<close>

text \<open>
  C7. In every state of the bot \<open>clearFacts()\<close> leaves a record with no facts, no current
  state and confidence 0; \<open>previousState\<close> and the transitions are as before; no client
  call and no fetch is made, and no timeout is set or cleared: the pending timeouts and
  \<open>updateTimer\<close> are as before, and the cache is untouched.
\<close>

theorem clearFacts_resets_synchronously:
  "facts (store (clearFacts w)) = [] \<and> currentState (store (clearFacts w)) = None
   \<and> confidence (store (clearFacts w)) = 0
   \<and> previousState (store (clearFacts w)) = previousState (store w)
   \<and> transitions (store (clearFacts w)) = transitions (store w)
   \<and> llmCalls (clearFacts w) = llmCalls w \<and> fetches (clearFacts w) = fetches w
   \<and> timeouts (clearFacts w) = timeouts w \<and> updateTimer (clearFacts w) = updateTimer w
   \<and> nextTimeout (clearFacts w) = nextTimeout w
   \<and> debounceRuns (clearFacts w) = debounceRuns w
   \<and> cache (clearFacts w) = cache w"
  by (simp add: clearFacts_def storeUpdate_def storeSet_def)

section \<open>Determination is idempotent while the cache entry is valid\<close>

lemma advance_no_timeouts:
  "timeouts w = [] \<Longrightarrow> advance e w = w\<lparr>now := max (now w) (now w + e)\<rparr>"
  by (simp add: advance_def)

lemma determineState_timeouts:
  "timerInv w \<Longrightarrow> timeouts (snd (determineState w)) = []"
  by (simp add: determineState_cancel updateState_keeps cancelTimer_timeouts)

text \<open>After a cycle that yields a determination, the record shows the cached entry.\<close>

lemma updateState_ok_entry:
  assumes "facts (store w) \<noteq> []" and "updateState w = (Inr s, w1)"
  shows "\<exists>entry. cache w1 (generateCacheKey (facts (store w))) = Some entry
           \<and> s = Some (ce_state entry)
           \<and> currentState (store w1) = Some (ce_state entry)
           \<and> confidence (store w1) = ce_confidence entry"
  using assms
  by (auto simp: updateState_cases validEntry_def split: option.splits sum.splits if_splits)

lemma updateState_llmCalls:
  "llmCalls (snd (updateState w)) \<le> llmCalls w + 1"
  by (simp add: updateState_cases split: option.splits sum.splits)

lemma updateState_hit:
  assumes "facts (store w) \<noteq> []" and "validEntry w = Some e"
  shows "updateState w = (Inr (Some (ce_state e)), updateStateStore (ce_state e) (ce_confidence e) w)"
  using assms by (simp add: updateState_cases)

text \<open>
  C6. Let \<open>determineState()\<close> be called with facts present and resolve, let time pass
  with nothing else happening, and let the cache entry of the fact list then be still
  valid. A second \<open>determineState()\<close> resolves with the same state and leaves the same
  current state and confidence, and it calls no client and makes no fetch: the two
  calls together call the client at most once.
\<close>

theorem determineState_idempotent:
  assumes facts: "facts (store w) \<noteq> []"
      and first: "determineState w = (Inr s, w1)"
      and inv: "timerInv w"
      and entry: "cache w1 (generateCacheKey (facts (store w))) = Some entry"
      and fresh: "isCacheValid (ce_timestamp entry) (advance e w1)"
  shows "fst (determineState (advance e w1)) = Inr s
       \<and> currentState (store (snd (determineState (advance e w1)))) = currentState (store w1)
       \<and> confidence (store (snd (determineState (advance e w1)))) = confidence (store w1)
       \<and> llmCalls (snd (determineState (advance e w1))) = llmCalls w1
       \<and> fetches (snd (determineState (advance e w1))) = fetches w1
       \<and> llmCalls (snd (determineState (advance e w1))) \<le> llmCalls w + 1"
proof -
  let ?w2 = "advance e w1"
  have w1: "w1 = snd (determineState w)" using first by simp
  have first': "updateState (cancelTimer w) = (Inr s, w1)"
    using first by (simp add: determineState_cancel)
  from updateState_ok_entry[OF _ first'] facts entry
  have shown: "s = Some (ce_state entry)" "currentState (store w1) = Some (ce_state entry)"
       "confidence (store w1) = ce_confidence entry"
    by auto
  have "timeouts w1 = []" using inv w1 by (simp add: determineState_timeouts)
  then have w2: "?w2 = w1\<lparr>now := max (now w1) (now w1 + e)\<rparr>"
    by (rule advance_no_timeouts)
  have facts1: "facts (store w1) = facts (store w)"
    using w1 by (simp add: determineState_cancel updateState_keeps)
  have valid: "validEntry (cancelTimer ?w2) = Some entry"
    using entry fresh facts1
    by (simp add: validEntry_def isCacheValid_def w2)
  have facts2: "facts (store (cancelTimer ?w2)) \<noteq> []"
    using facts facts1 by (simp add: w2)
  have second: "determineState ?w2 =
      (Inr (Some (ce_state entry)),
       updateStateStore (ce_state entry) (ce_confidence entry) (cancelTimer ?w2))"
    using updateState_hit[OF facts2 valid] by (simp add: determineState_cancel)
  have calls: "llmCalls w1 \<le> llmCalls w + 1"
    using updateState_llmCalls[of "cancelTimer w"] w1 by (simp add: determineState_cancel)
  show ?thesis
    using shown calls by (simp add: second) (simp add: w2)
qed

lemma example_timerInv: "timerInv (snd (determineState example_world))"
proof -
  have "timerInv example_world"
    by (simp add: timerInv_def example_world_def addFact_def scheduleStateUpdate_def
          setTimeout_def constructor_def split_beta Let_def)
  then have "timeouts (snd (determineState example_world)) = []"
    by (rule determineState_timeouts)
  then show ?thesis by (simp add: timerInv_def)
qed

lemma example_cacheExpiry:
  "cacheExpiry (config (snd (determineState (snd (determineState example_world))))) = Some 300000"
  by (simp add: determineState_cancel updateState_keeps example_world_def addFact_def
        scheduleStateUpdate_def setTimeout_def constructor_def defaultConfig_def js_or_def
        example_config_def split_beta Let_def)

lemma example_cached:
  "cache (snd (determineState (snd (determineState example_world))))
     (generateCacheKey (facts (store (snd (determineState example_world))))) =
   Some \<lparr>ce_state = ''A'', ce_confidence = 0.9,
         ce_timestamp = now (snd (determineState (snd (determineState example_world))))\<rparr>"
  by (simp add: determineState_cancel[of "snd (determineState example_world)"]
        updateState_cases[of "cancelTimer (snd (determineState example_world))"]
        validEntry_def example_after_failure example_second_run example_response_def)

theorem determineState_idempotent_witness:
  "fst (determineState (advance 1000 (snd (determineState (snd (determineState example_world))))))
     = Inr (Some ''A'')
   \<and> llmCalls (snd (determineState (advance 1000
        (snd (determineState (snd (determineState example_world)))))))
     = llmCalls (snd (determineState (snd (determineState example_world))))"
proof -
  let ?w = "snd (determineState example_world)"
  let ?w1 = "snd (determineState ?w)"
  let ?entry = "\<lparr>ce_state = ''A'', ce_confidence = 0.9, ce_timestamp = now ?w1\<rparr>"
  have facts: "facts (store ?w) \<noteq> []" by (simp add: example_after_failure)
  have first: "determineState ?w = (Inr (Some ''A''), ?w1)"
    using example_second_call by (simp add: prod_eq_iff)
  have "timeouts ?w1 = []" using example_timerInv by (rule determineState_timeouts)
  then have fresh: "isCacheValid (ce_timestamp ?entry) (advance 1000 ?w1)"
    by (simp add: advance_no_timeouts isCacheValid_def example_cacheExpiry)
  from determineState_idempotent [OF facts first example_timerInv example_cached fresh]
  show ?thesis by simp
qed

section \<open>Debounce\<close>

lemma timerCallback_keeps:
  "timeouts (timerCallback w) = timeouts w"
  "updateTimer (timerCallback w) = updateTimer w"
  "debounceRuns (timerCallback w) = Suc (debounceRuns w)"
  "config (timerCallback w) = config w"
  by (simp_all add: timerCallback_def split_beta updateState_keeps split: sum.splits)










lemma timerInv_storeUpdate: "timerInv (storeUpdate f w) = timerInv w"
  by (simp add: timerInv_def split: list.splits)













text \<open>Every operation keeps the timer invariant.\<close>

lemma timerInv_scheduleStateUpdate: "timerInv w \<Longrightarrow> timerInv (scheduleStateUpdate w)"
  by (auto simp: timerInv_def scheduleStateUpdate_def setTimeout_def clearTimeout_def
        split_beta Let_def split: option.splits list.splits)

lemma timerInv_advance:
  assumes "timerInv w"
  shows "timerInv (advance e w)"
proof (cases "timeouts w")
  case Nil
  then show ?thesis by (simp add: advance_no_timeouts timerInv_def)
next
  case (Cons p ps)
  then have one: "timeouts w = [p]" and own: "updateTimer w = Some (fst p)"
    using assms by (auto simp: timerInv_def split: list.splits)
  show ?thesis
  proof (cases "snd p \<le> now w + e")
    case True
    then have "timeouts (advance e w) = []"
      using one by (simp add: advance_def Let_def runTimeout_def timerCallback_keeps)
    then show ?thesis by (simp add: timerInv_def)
  next
    case False
    then have "advance e w = w\<lparr>now := max (now w) (now w + e)\<rparr>"
      using one by (simp add: advance_def Let_def)
    then show ?thesis using one own by (simp add: timerInv_def)
  qed
qed

lemma timerInv_kept:
  assumes "timerInv w"
  shows "timerInv (mutate m w)" and "timerInv (clearFacts w)" and "timerInv (reset w)"
    and "timerInv (subscribe w)" and "timerInv (snd (determineState w))"
    and "timerInv (advance e w)"
proof -
  show "timerInv (mutate m w)"
    using assms
    by (cases m) (simp_all add: addFact_def addFacts_def removeFact_def
                    timerInv_scheduleStateUpdate timerInv_storeUpdate)
  show "timerInv (clearFacts w)"
    using assms by (simp add: clearFacts_def timerInv_storeUpdate)
  show "timerInv (reset w)"
    using assms by (simp add: reset_def storeSet_def timerInv_def split: list.splits)
  show "timerInv (subscribe w)"
    using assms by (simp add: subscribe_def timerInv_def split: list.splits)
  show "timerInv (snd (determineState w))"
    using determineState_timeouts[OF assms] by (simp add: timerInv_def)
  show "timerInv (advance e w)" using assms by (rule timerInv_advance)
qed


section \<open>Defaults of the configuration\<close>

text \<open>
  C10. The constructor defaults the optional numbers with \<open>||\<close>: a configured 0 for
  \<open>cacheExpiry\<close>, \<open>debounceTime\<close>, \<open>retryCount\<close> or \<open>determinationThreshold\<close> is replaced by
  300000, 500, 3 and 0.7. With \<open>retryCount = 0\<close> the client is built with retry count 3
  and makes three attempts against an API that keeps failing; with \<open>debounceTime = 0\<close> a
  fact mutation sets its timeout 500 ms ahead.
\<close>

theorem zero_config_takes_defaults:
  "cacheExpiry (config (constructor (c\<lparr>cacheExpiry := Some 0\<rparr>) t b)) = Some 300000
   \<and> debounceTime (config (constructor (c\<lparr>debounceTime := Some 0\<rparr>) t b)) = Some 500
   \<and> retryCount (config (constructor (c\<lparr>retryCount := Some 0\<rparr>) t b)) = Some 3
   \<and> determinationThreshold (config (constructor (c\<lparr>determinationThreshold := Some 0\<rparr>) t b))
       = Some 0.7
   \<and> svc_retryCount (llmService (constructor (c\<lparr>retryCount := Some 0\<rparr>) t b)) = 3
   \<and> attempts_made (llm_determineState
         (llmService (constructor (c\<lparr>retryCount := Some 0\<rparr>) t b))
         (\<lambda>k. NetworkError (msg k))) = 3
   \<and> timeouts (addFact f (constructor (c\<lparr>debounceTime := Some 0\<rparr>) t b)) = [(1, t + 500)]"
proof -
  have rc: "svc_retryCount (llmService (constructor (c\<lparr>retryCount := Some 0\<rparr>) t b)) = int 3"
    by (simp add: constructor_def defaultConfig_def createLLMService_def js_or_def)
  have "\<forall>k<3. \<forall>r. NetworkError (msg k) \<noteq> Parsed r" by simp
  from llm_all_fail[OF this rc]
  have three: "attempts_made (llm_determineState
         (llmService (constructor (c\<lparr>retryCount := Some 0\<rparr>) t b))
         (\<lambda>k. NetworkError (msg k))) = 3"
    by simp
  have rest: "cacheExpiry (config (constructor (c\<lparr>cacheExpiry := Some 0\<rparr>) t b)) = Some 300000
   \<and> debounceTime (config (constructor (c\<lparr>debounceTime := Some 0\<rparr>) t b)) = Some 500
   \<and> retryCount (config (constructor (c\<lparr>retryCount := Some 0\<rparr>) t b)) = Some 3
   \<and> determinationThreshold (config (constructor (c\<lparr>determinationThreshold := Some 0\<rparr>) t b))
       = Some 0.7"
    by (simp add: constructor_def defaultConfig_def js_or_def)
  have timer: "timeouts (addFact f (constructor (c\<lparr>debounceTime := Some 0\<rparr>) t b)) = [(1, t + 500)]"
    by (simp add: addFact_def scheduleStateUpdate_def setTimeout_def constructor_def
          defaultConfig_def js_or_def timerDelay_def TIMEOUT_MAX_def split_beta Let_def)
  from rest rc three timer show ?thesis by simp
qed

section \<open>What subscribers see\<close>

text \<open>The mutations made of one update call each subscriber once, with the result.\<close>

lemma single_update_notifies_once:
  "subscribers (addFact f w) = map (\<lambda>seen. seen @ [store (addFact f w)]) (subscribers w)"
  "subscribers (addFacts fs w) = map (\<lambda>seen. seen @ [store (addFacts fs w)]) (subscribers w)"
  "subscribers (removeFact f w) = map (\<lambda>seen. seen @ [store (removeFact f w)]) (subscribers w)"
  "subscribers (reset w) = map (\<lambda>seen. seen @ [store (reset w)]) (subscribers w)"
  "subscribers (updateStateStore newState conf w) =
     map (\<lambda>seen. seen @ [store (updateStateStore newState conf w)]) (subscribers w)"
  by (simp_all add: addFact_def addFacts_def removeFact_def reset_def updateStateStore_def
        scheduleStateUpdate_def setTimeout_def clearTimeout_def storeUpdate_def storeSet_def
        split_beta Let_def split: option.splits)

text \<open>\<open>clearFacts\<close> is made of two: each subscriber is called twice.\<close>

lemma clearFacts_notifies_twice:
  "subscribers (clearFacts w) =
     map (\<lambda>seen. seen @ [(store w)\<lparr>facts := []\<rparr>,
                          (store w)\<lparr>facts := [], currentState := None, confidence := 0\<rparr>])
       (subscribers w)"
  by (simp add: clearFacts_def storeUpdate_def storeSet_def)

text \<open>
  C9. The claim is that a subscriber never sees a mutation half applied. In the store
  with facts \<open>f1\<close>, \<open>f2\<close> and current state \<open>X\<close>, \<open>clearFacts()\<close> calls the subscriber with
  a record whose facts are empty and whose current state is still \<open>X\<close>, before it calls
  it with the cleared record.
\<close>

theorem clearFacts_shows_intermediate_state:
  "subscribers (clearFacts watched_world) =
     [[watched_state,
       watched_state\<lparr>facts := []\<rparr>,
       watched_state\<lparr>facts := [], currentState := None, confidence := 0\<rparr>]]
   \<and> facts (watched_state\<lparr>facts := []\<rparr>) = []
   \<and> currentState (watched_state\<lparr>facts := []\<rparr>) = Some ''X''"
  by (simp add: clearFacts_def watched_world_def subscribe_def constructor_def watched_state_def)

section \<open>getState and the record object\<close>

text \<open>The operations of the store only allocate.\<close>

lemma alloc_simps [simp]:
  "fst (alloc obj h) = nextRef h"
  "nextRef (snd (alloc obj h)) = Suc (nextRef h)"
  "current (snd (alloc obj h)) = current h"
  "objects (snd (alloc obj h)) = (objects h)(nextRef h \<mapsto> obj)"
  by (simp_all add: alloc_def)

lemma h_set_simps [simp]:
  "nextRef (h_set s h) = Suc (nextRef h)"
  "current (h_set s h) = nextRef h"
  "objects (h_set s h) = (objects h)(nextRef h \<mapsto> StateObject s)"
  by (simp_all add: h_set_def split_beta)

lemma extends_refl: "extends h h" by (simp add: extends_def)

lemma extends_trans: "extends h h1 \<Longrightarrow> extends h1 h2 \<Longrightarrow> extends h h2"
  by (auto simp: extends_def)

lemma extends_alloc: "extends h (snd (alloc obj h))"
  by (simp add: extends_def)

lemma extends_h_set: "extends h (h_set s h)"
  by (simp add: extends_def)

lemma extends_h_update:
  assumes "\<And>s h1. extends h1 (snd (f s h1))"
  shows "extends h (h_update f h)"
proof (cases "objects h (current h)")
  case None
  then show ?thesis by (simp add: h_update_def extends_refl)
next
  case (Some obj)
  show ?thesis
  proof (cases obj)
    case (StateObject s)
    have "extends h (snd (f s h))" by (rule assms)
    moreover have "extends (snd (f s h)) (h_set (fst (f s h)) (snd (f s h)))" by (rule extends_h_set)
    ultimately show ?thesis
      using Some StateObject by (simp add: h_update_def split_beta extends_trans)
  qed (simp_all add: Some h_update_def extends_refl)
qed

lemma extends_h_initial: "extends h (h_initial t h)"
  by (simp add: h_initial_def split_beta extends_def)

lemma extends_apply: "extends h (h_apply op h)"
proof (cases op)
  case (OpDetermined newState conf t)
  show ?thesis
    unfolding OpDetermined h_apply.simps h_updateStateStore_def
    by (rule extends_h_update) (simp add: split_beta Let_def extends_def)
next
  case OpClearFacts
  have "extends h (h_update (\<lambda>state h1.
          let (f, h2) = alloc (StringArray []) h1 in (state\<lparr>s_facts := f\<rparr>, h2)) h)"
    by (rule extends_h_update) (simp add: split_beta extends_alloc)
  moreover have "extends h' (h_update (\<lambda>state h1. (state\<lparr>s_currentState := None, s_confidence := 0\<rparr>, h1)) h')" for h'
    by (rule extends_h_update) (simp add: extends_refl)
  ultimately show ?thesis
    unfolding OpClearFacts h_apply.simps h_clearFacts_def by (rule extends_trans)
qed (auto simp: h_addFact_def h_addFacts_def h_removeFact_def h_reset_def h_setError_def
       split_beta extends_alloc extends_refl extends_h_initial intro!: extends_h_update)

lemma extends_fold: "extends h (fold h_apply ops h)"
proof (induction ops arbitrary: h)
  case Nil
  show ?case by (simp add: extends_refl)
next
  case (Cons op ops)
  have "extends h (h_apply op h)" by (rule extends_apply)
  moreover have "extends (h_apply op h) (fold h_apply ops (h_apply op h))" by (rule Cons.IH)
  ultimately show ?case by (simp add: extends_trans)
qed

lemma readTransition_same:
  assumes "\<And>a. a < n \<Longrightarrow> objects h' a = objects h a" and "list_all (\<lambda>t. o_facts t < n) ts"
  shows "map (readTransition h') ts = map (readTransition h) ts"
  using assms(2) by (induction ts) (simp_all add: readTransition_def stringsAt_def assms(1))

lemma view_extends:
  assumes "closed h s" and "extends h h'"
  shows "view h' s = view h s" and "closed h' s"
proof -
  have same: "\<And>a. a < nextRef h \<Longrightarrow> objects h' a = objects h a" and le: "nextRef h \<le> nextRef h'"
    using assms(2) by (simp_all add: extends_def)
  have f: "s_facts s < nextRef h" and t: "s_transitions s < nextRef h"
    and ts: "list_all (\<lambda>t. o_facts t < nextRef h) (transitionsAt h (s_transitions s))"
    and arr: "(case objects h (s_facts s) of Some (StringArray _) \<Rightarrow> True | _ \<Rightarrow> False)"
    using assms(1) by (simp_all add: closed_def)
  have 2: "stringsAt h' (s_facts s) = stringsAt h (s_facts s)"
    using f same by (simp add: stringsAt_def)
  have 3: "transitionsAt h' (s_transitions s) = transitionsAt h (s_transitions s)"
    using t same by (simp add: transitionsAt_def)
  have 4: "map (readTransition h') (transitionsAt h (s_transitions s)) =
           map (readTransition h) (transitionsAt h (s_transitions s))"
    using same ts by (rule readTransition_same)
  show "view h' s = view h s" by (simp add: view_def 2 3 4)
  have "list_all (\<lambda>t. o_facts t < nextRef h') (transitionsAt h (s_transitions s))"
    using ts le by (auto simp: list_all_iff)
  then show "closed h' s" using f t le arr same[OF f] by (simp add: closed_def 3)
qed

lemma readState_extends:
  assumes "wfAt h r" and "extends h h'"
  shows "readState h' r = readState h r" and "wfAt h' r"
proof -
  from assms(1) obtain s where s: "objects h r = Some (StateObject s)"
    and r: "r < nextRef h" and c: "closed h s"
    by (auto simp: wfAt_def split: option.splits Object.splits)
  have 1: "objects h' r = Some (StateObject s)" using s r assms(2) by (simp add: extends_def)
  have le: "nextRef h \<le> nextRef h'" using assms(2) by (simp add: extends_def)
  show "readState h' r = readState h r"
    by (simp add: readState_def 1 s view_extends(1)[OF c assms(2)])
  show "wfAt h' r" using r le view_extends(2)[OF c assms(2)] by (simp add: wfAt_def 1)
qed

text \<open>Installing a record whose references are allocated.\<close>

lemma h_set_reads:
  assumes "closed h s"
  shows "readState (h_set s h) (current (h_set s h)) = Some (view h s)"
    and "wfAt (h_set s h) (current (h_set s h))"
proof -
  have v: "view (h_set s h) s = view h s" and c: "closed (h_set s h) s"
    using view_extends[OF assms extends_h_set] by simp_all
  show "readState (h_set s h) (current (h_set s h)) = Some (view h s)"
    by (simp add: readState_def v)
  show "wfAt (h_set s h) (current (h_set s h))"
    using c by (simp add: wfAt_def)
qed

lemma h_update_at:
  "objects h (current h) = Some (StateObject s) \<Longrightarrow>
   h_update f h = h_set (fst (f s h)) (snd (f s h))"
  by (simp add: h_update_def split_beta)

lemma representsE:
  assumes "represents h w"
  obtains s where "objects h (current h) = Some (StateObject s)" and "closed h s"
    and "view h s = store w"
  using assms
  by (auto simp: represents_def wfAt_def readState_def split: option.splits Object.splits)

lemma represents_h_set:
  "closed h s \<Longrightarrow> view h s = store w \<Longrightarrow> represents (h_set s h) w"
  using h_set_reads[of h s] by (simp add: represents_def)

lemma closed_new_facts:
  assumes "closed h s"
  shows "closed (snd (alloc (StringArray xs) h)) (s\<lparr>s_facts := nextRef h\<rparr>)"
    and "view (snd (alloc (StringArray xs) h)) (s\<lparr>s_facts := nextRef h\<rparr>) = (view h s)\<lparr>facts := xs\<rparr>"
proof -
  let ?h = "snd (alloc (StringArray xs) h)"
  have c: "closed ?h s" and v: "view ?h s = view h s"
    using view_extends[OF assms extends_alloc] by simp_all
  show "closed ?h (s\<lparr>s_facts := nextRef h\<rparr>)"
    using c by (simp add: closed_def)
  have "view ?h (s\<lparr>s_facts := nextRef h\<rparr>) = (view ?h s)\<lparr>facts := xs\<rparr>"
    by (simp add: view_def stringsAt_def)
  then show "view ?h (s\<lparr>s_facts := nextRef h\<rparr>) = (view h s)\<lparr>facts := xs\<rparr>"
    by (simp add: v)
qed

lemma view_facts: "facts (view h s) = stringsAt h (s_facts s)"
  by (simp add: view_def)

lemma represents_new_facts:
  assumes "represents h w" and "store w' = (store w)\<lparr>facts := g (facts (store w))\<rparr>"
  shows "represents
     (h_update (\<lambda>state h1.
        let (f, h2) = alloc (StringArray (g (stringsAt h1 (s_facts state)))) h1
        in (state\<lparr>s_facts := f\<rparr>, h2)) h) w'"
proof -
  from assms(1) obtain s where s: "objects h (current h) = Some (StateObject s)"
    and c: "closed h s" and v: "view h s = store w"
    by (rule representsE)
  let ?xs = "g (stringsAt h (s_facts s))"
  have "view (snd (alloc (StringArray ?xs) h)) (s\<lparr>s_facts := nextRef h\<rparr>) = store w'"
    using closed_new_facts(2)[OF c, of ?xs] v assms(2) view_facts[of h s] by simp
  from represents_h_set[OF closed_new_facts(1)[OF c, of ?xs] this]
  show ?thesis by (simp add: h_update_at[OF s] split_beta)
qed

text \<open>The operations on objects do what the operations on values do.\<close>

lemma store_mutations:
  "store (addFact f w) = (store w)\<lparr>facts := facts (store w) @ [factContent f]\<rparr>"
  "store (addFacts fs w) = (store w)\<lparr>facts := facts (store w) @ map factContent fs\<rparr>"
  "store (removeFact f w) = (store w)\<lparr>facts := filter (\<lambda>x. x \<noteq> factContent f) (facts (store w))\<rparr>"
  "store (clearFacts w) = (store w)\<lparr>facts := [], currentState := None, confidence := 0\<rparr>"
  "store (reset w) = initialState (now w)"
  by (simp_all add: addFact_def addFacts_def removeFact_def clearFacts_def reset_def
        scheduleStateUpdate_def setTimeout_def clearTimeout_def storeUpdate_def storeSet_def
        split_beta Let_def split: option.splits)

lemma represents_addFact:
  "represents h w \<Longrightarrow> represents (h_addFact (factContent f) h) (addFact f w)"
  unfolding h_addFact_def
  by (rule represents_new_facts[where g = "\<lambda>xs. xs @ [factContent f]"])
     (simp_all add: store_mutations)

lemma represents_addFacts:
  "represents h w \<Longrightarrow> represents (h_addFacts (map factContent fs) h) (addFacts fs w)"
  unfolding h_addFacts_def
  by (rule represents_new_facts[where g = "\<lambda>xs. xs @ map factContent fs"])
     (simp_all add: store_mutations)

lemma represents_removeFact:
  "represents h w \<Longrightarrow> represents (h_removeFact (factContent f) h) (removeFact f w)"
  unfolding h_removeFact_def
  by (rule represents_new_facts[where g = "filter (\<lambda>x. x \<noteq> factContent f)"])
     (simp_all add: store_mutations)

lemma represents_scalar:
  assumes "represents h w"
    and "\<And>s. s_facts (k s) = s_facts s \<and> s_transitions (k s) = s_transitions s"
    and "\<And>s. view h (k s) = K (view h s)"
    and "store w' = K (store w)"
  shows "represents (h_update (\<lambda>state h1. (k state, h1)) h) w'"
proof -
  from assms(1) obtain s where s: "objects h (current h) = Some (StateObject s)"
    and c: "closed h s" and v: "view h s = store w"
    by (rule representsE)
  have "closed h (k s)" using c assms(2)[of s] by (simp add: closed_def)
  moreover have "view h (k s) = store w'" using assms(3)[of s] assms(4) v by simp
  ultimately have "represents (h_set (k s) h) w'" by (rule represents_h_set)
  then show ?thesis by (simp add: h_update_at[OF s])
qed

lemma represents_setError:
  "represents h w \<Longrightarrow>
   represents (h_setError msg h) (storeUpdate (\<lambda>state. state\<lparr>error := Some msg\<rparr>) w)"
  unfolding h_setError_def
  by (rule represents_scalar[where K = "\<lambda>v. v\<lparr>error := Some msg\<rparr>"])
     (simp_all add: view_def)

lemma represents_clearFacts:
  assumes "represents h w"
  shows "represents (h_clearFacts h) (clearFacts w)"
proof -
  let ?w1 = "storeUpdate (\<lambda>state. state\<lparr>facts := []\<rparr>) w"
  let ?h1 = "h_update (\<lambda>state h1.
          let (f, h2) = alloc (StringArray []) h1 in (state\<lparr>s_facts := f\<rparr>, h2)) h"
  have "represents ?h1 ?w1"
    using represents_new_facts[OF assms, where g = "\<lambda>xs. []" and w' = ?w1] by simp
  then have "represents
      (h_update (\<lambda>state h1. (state\<lparr>s_currentState := None, s_confidence := 0\<rparr>, h1)) ?h1)
      (clearFacts w)"
    by (rule represents_scalar[where K = "\<lambda>v. v\<lparr>currentState := None, confidence := 0\<rparr>"])
       (simp_all add: view_def clearFacts_def)
  then show ?thesis by (simp add: h_clearFacts_def)
qed

lemma represents_initial: "represents (h_initial (now w) h) (reset w)"
proof -
  let ?h2 = "snd (alloc (TransitionArray []) (snd (alloc (StringArray []) h)))"
  let ?s = "\<lparr>s_currentState = None, s_previousState = None, s_facts = nextRef h,
             s_confidence = 0, s_lastUpdated = now w, s_transitions = Suc (nextRef h),
             s_error = None\<rparr>"
  have "closed ?h2 ?s" by (simp add: closed_def transitionsAt_def)
  moreover have "view ?h2 ?s = store (reset w)"
    by (simp add: view_def stringsAt_def transitionsAt_def store_mutations initialState_def)
  ultimately have "represents (h_set ?s ?h2) (reset w)" by (rule represents_h_set)
  then show ?thesis by (simp add: h_initial_def split_beta)
qed

lemma store_updateStateStore:
  "store (updateStateStore newState conf w) = applyResult newState conf (now w) (store w)"
  by (simp add: updateStateStore_def applyResult_def Let_def)

lemma represents_updateStateStore:
  assumes "represents h w"
  shows "represents (h_updateStateStore newState conf (now w) h) (updateStateStore newState conf w)"
proof -
  from assms obtain s where s: "objects h (current h) = Some (StateObject s)"
    and c: "closed h s" and v: "view h s = store w"
    by (rule representsE)
  have goal: "store (updateStateStore newState conf w) = applyResult newState conf (now w) (view h s)"
    by (simp add: store_updateStateStore v)
  show ?thesis
  proof (cases "s_currentState s = Some newState")
    case True
    let ?s' = "s\<lparr>s_previousState := s_previousState s, s_currentState := Some newState,
                  s_confidence := conf, s_lastUpdated := now w,
                  s_transitions := s_transitions s, s_error := None\<rparr>"
    have "closed h ?s'" using c by (simp add: closed_def)
    moreover have "view h ?s' = applyResult newState conf (now w) (view h s)"
      using True by (simp add: view_def applyResult_def)
    ultimately have "represents (h_set ?s' h) (updateStateStore newState conf w)"
      by (intro represents_h_set) (simp_all add: goal)
    then show ?thesis
      using True by (simp add: h_updateStateStore_def h_update_at[OF s] Let_def)
  next
    case False
    let ?xs = "stringsAt h (s_facts s)"
    let ?h2 = "snd (alloc (StringArray ?xs) h)"
    let ?ts = "transitionsAt h (s_transitions s) @
                 [\<lparr>o_from = s_currentState s, o_to = newState, o_timestamp = now w,
                   o_facts = nextRef h\<rparr>]"
    let ?h4 = "snd (alloc (TransitionArray ?ts) ?h2)"
    let ?s' = "s\<lparr>s_previousState := s_currentState s, s_currentState := Some newState,
                  s_confidence := conf, s_lastUpdated := now w,
                  s_transitions := Suc (nextRef h), s_error := None\<rparr>"
    have ext: "extends h ?h4" by (simp add: extends_def)
    have c4: "closed ?h4 s"
      using view_extends(2)[OF c ext] .
    have f: "s_facts s < nextRef h" and t: "s_transitions s < nextRef h"
      and ts: "list_all (\<lambda>t. o_facts t < nextRef h) (transitionsAt h (s_transitions s))"
      using c by (simp_all add: closed_def)
    have old: "transitionsAt ?h2 (s_transitions s) = transitionsAt h (s_transitions s)"
      using t by (simp add: transitionsAt_def)
    have new: "transitionsAt ?h4 (Suc (nextRef h)) = ?ts"
      by (simp add: transitionsAt_def)
    have "list_all (\<lambda>t. o_facts t < Suc (Suc (nextRef h))) (transitionsAt h (s_transitions s))"
      using ts by (auto simp: list_all_iff)
    then have closed': "closed ?h4 ?s'"
      using c4 by (simp add: closed_def new)
    have same: "map (readTransition ?h4) (transitionsAt h (s_transitions s)) =
                map (readTransition h) (transitionsAt h (s_transitions s))"
      by (rule readTransition_same[OF _ ts]) simp
    have copy: "stringsAt ?h4 (nextRef h) = ?xs" by (simp add: stringsAt_def)
    have facts4: "stringsAt ?h4 (s_facts s) = ?xs" using f by (simp add: stringsAt_def)
    have "view ?h4 ?s' = applyResult newState conf (now w) (view h s)"
      using False
      by (simp add: view_def applyResult_def new same copy facts4 readTransition_def)
    with closed' have "represents (h_set ?s' ?h4) (updateStateStore newState conf w)"
      by (intro represents_h_set) (simp_all add: goal)
    then show ?thesis
      using False by (simp add: h_updateStateStore_def h_update_at[OF s] Let_def split_beta old)
  qed
qed

lemma caller_push_visible:
  assumes "wfAt h r"
  shows "map_option facts (readState (caller_push r x h) r) =
         map_option (\<lambda>v. facts v @ [x]) (readState h r)"
proof -
  from assms obtain s where s: "objects h r = Some (StateObject s)" and c: "closed h s"
    by (auto simp: wfAt_def split: option.splits Object.splits)
  from c obtain xs where xs: "objects h (s_facts s) = Some (StringArray xs)"
    by (auto simp: closed_def split: option.splits Object.splits)
  have ne: "s_facts s \<noteq> r" using s xs by auto
  show ?thesis
    using s xs ne by (simp add: caller_push_def readState_def view_def stringsAt_def)
qed

lemma represents_new: "represents (h_new t) (constructor c t b)"
proof -
  have "represents (h_initial (now (constructor c t b)) \<lparr>objects = Map.empty, nextRef = 0, current = 0\<rparr>)
          (reset (constructor c t b))"
    by (rule represents_initial)
  then show ?thesis
    by (simp add: represents_def h_new_def store_mutations constructor_def)
qed

lemma caller_push_current: "current (caller_push r x h) = current h"
  by (simp add: caller_push_def split: option.splits Object.splits)

text \<open>
  C8 (amended). \<open>getState()\<close> returns the record object that the store holds: no copy is
  made. What it returns is the state at the time of the call, and no later operation of
  the store changes it, since every mutation of the store builds a new record object and
  new arrays and writes to no existing one. But a mutation that the caller makes through
  the returned record is a mutation of the store's own record: after
  \<open>getState().facts.push(x)\<close> the next \<open>getState()\<close> has the fact \<open>x\<close>.
\<close>

theorem getState_returns_the_live_record:
  assumes "represents h w"
  shows "readState h (h_getState h) = Some (getState w)
       \<and> readState (fold h_apply ops h) (h_getState h) = Some (getState w)
       \<and> map_option facts
            (readState (caller_push (h_getState h) x h)
               (h_getState (caller_push (h_getState h) x h)))
          = Some (facts (getState w) @ [x])"
proof -
  have wf: "wfAt h (current h)" and rd: "readState h (current h) = Some (store w)"
    using assms by (simp_all add: represents_def)
  have 1: "readState h (h_getState h) = Some (getState w)"
    using rd by (simp add: h_getState_def getState_def)
  have 2: "readState (fold h_apply ops h) (h_getState h) = Some (getState w)"
    using readState_extends(1)[OF wf extends_fold, of ops] rd
    by (simp add: h_getState_def getState_def)
  have 3: "map_option facts
            (readState (caller_push (h_getState h) x h)
               (h_getState (caller_push (h_getState h) x h)))
          = Some (facts (getState w) @ [x])"
    using caller_push_visible[OF wf, of x] rd
    by (simp add: h_getState_def getState_def caller_push_current)
  from 1 2 3 show ?thesis by blast
qed

lemma example_heap_represents:
  "represents example_heap (addFact (Str ''f1'') (constructor example_config 0 recovering_backend))"
  using represents_addFact[OF represents_new, of "Str ''f1''" 0 example_config recovering_backend]
  by (simp add: example_heap_def)

lemma example_heap_facts:
  "facts (getState (addFact (Str ''f1'') (constructor example_config 0 recovering_backend))) = [''f1'']"
  by (simp add: getState_def store_mutations constructor_def initialState_def)

theorem getState_returns_the_live_record_witness:
  "readState (fold h_apply [OpAddFact ''f2'', OpDetermined ''A'' 0.9 5, OpClearFacts] example_heap)
      (h_getState example_heap)
     = Some (getState (addFact (Str ''f1'') (constructor example_config 0 recovering_backend)))
   \<and> map_option facts
        (readState (caller_push (h_getState example_heap) ''x'' example_heap)
           (h_getState (caller_push (h_getState example_heap) ''x'' example_heap)))
     = Some [''f1'', ''x'']"
  using getState_returns_the_live_record [OF example_heap_represents,
          of "[OpAddFact ''f2'', OpDetermined ''A'' 0.9 5, OpClearFacts]" "''x''"]
        example_heap_facts
  by simp

text \<open>
  C8 as stated fails: in a new store after \<open>addFact("f1")\<close>, pushing \<open>x\<close> onto the facts
  of the record returned by \<open>getState()\<close> changes the facts that the next \<open>getState()\<close>
  shows, from \<open>["f1"]\<close> to \<open>["f1", "x"]\<close>.
\<close>

theorem getState_is_not_a_copy:
  "map_option facts (readState example_heap (h_getState example_heap)) = Some [''f1'']
   \<and> map_option facts
        (readState (caller_push (h_getState example_heap) ''x'' example_heap)
           (h_getState (caller_push (h_getState example_heap) ''x'' example_heap)))
     = Some [''f1'', ''x'']
   \<and> readState (caller_push (h_getState example_heap) ''x'' example_heap)
           (h_getState (caller_push (h_getState example_heap) ''x'' example_heap))
       \<noteq> readState example_heap (h_getState example_heap)"
proof -
  have wf: "wfAt example_heap (current example_heap)"
    and rd: "readState example_heap (current example_heap) =
      Some (store (addFact (Str ''f1'') (constructor example_config 0 recovering_backend)))"
    using example_heap_represents by (simp_all add: represents_def)
  have f: "facts (store (addFact (Str ''f1'') (constructor example_config 0 recovering_backend))) = [''f1'']"
    using example_heap_facts by (simp add: getState_def)
  have 1: "map_option facts (readState example_heap (h_getState example_heap)) = Some [''f1'']"
    using rd f by (simp add: h_getState_def)
  have 2: "map_option facts
        (readState (caller_push (h_getState example_heap) ''x'' example_heap)
           (h_getState (caller_push (h_getState example_heap) ''x'' example_heap)))
     = Some [''f1'', ''x'']"
    using caller_push_visible[OF wf, of "''x''"] rd f
    by (simp add: h_getState_def caller_push_current)
  from 1 2 have 3: "readState (caller_push (h_getState example_heap) ''x'' example_heap)
           (h_getState (caller_push (h_getState example_heap) ''x'' example_heap))
       \<noteq> readState example_heap (h_getState example_heap)"
    by auto
  from 1 2 3 show ?thesis by blast
qed

end
